theory Spec2Isabelle
  imports Complex_Main
begin

section \<open>The epoch runner of \<open>train.py\<close>\<close>

text \<open>
  The deep-learning framework, the tokenizer, the optimizer and the scheduler are opaque
  collaborators of \<open>train.py\<close>. They are parameters of the model: a batch has type \<open>'b\<close>,
  the parameter set of the network has type \<open>'m\<close>, the internal state of the optimizer
  (moments, learning rate) has type \<open>'o\<close> and that of the scheduler has type \<open>'s\<close>.
  A loss value (\<open>loss.item()\<close>, a Python float) is a real number; rounding and NaN are
  outside the model.

  Exceptions are values: every \<open>raise\<close> the source can reach is a branch that returns
  \<open>Inl\<close> of the error, together with the state as the exception leaves it.
\<close>

datatype error = AssertionError | AttributeError | ZeroDivisionError | StopIteration

text \<open>
  What the run does to the outside world, in order. \<open>Forward b l\<close> is lines 61 to 66 on
  batch \<open>b\<close> (labels to the device, tokenizer, forward pass, criterion) with \<open>l\<close> the value
  of \<open>loss.item()\<close>; the next four are lines 68 to 71; \<open>Logged\<close>, \<open>Monitored\<close> and
  \<open>SaveCheckpoint\<close> are the calls of lines 43, 44 and 46/49 of \<open>main\<close>.
\<close>

datatype ('b, 'm) event =
    Forward 'b real
  | ZeroGrad
  | Backward
  | OptimizerStep
  | SchedulerStep
  | Logged int real real
  | Monitored real
  | SaveCheckpoint 'm

text \<open>
  \<open>loss_of F training m b\<close> is the value of \<open>criterion(model(**tokens), labels).item()\<close> on
  batch \<open>b\<close> for the parameters \<open>m\<close>, in training mode (dropout active) or not;
  \<open>optimizer_step\<close> is \<open>zero_grad\<close>, \<open>backward\<close> and \<open>optimizer.step()\<close> together;
  \<open>scheduler_step\<close> is \<open>scheduler.step()\<close>, which writes the next learning rate into the
  optimizer.
\<close>

record ('b, 'm, 'o, 's) framework =
  loss_of :: "bool \<Rightarrow> 'm \<Rightarrow> 'b \<Rightarrow> real"
  optimizer_step :: "'o \<Rightarrow> 'm \<Rightarrow> 'b \<Rightarrow> 'o \<times> 'm"
  scheduler_step :: "'s \<Rightarrow> 'o \<Rightarrow> 's \<times> 'o"

text \<open>
  The objects the run mutates in place: the model (its mode, set by \<open>model.train()\<close> and
  \<open>model.eval()\<close>, and its parameters), the optimizer and the scheduler built at lines 27
  to 32, and the trace of effects.
\<close>

record ('b, 'm, 'o, 's) world =
  training :: bool
  params :: 'm
  opt_state :: 'o
  sched_state :: 's
  trace :: "('b, 'm) event list"

text \<open>
  The arguments \<open>optimizer\<close> and \<open>scheduler\<close> of \<open>run_epoch\<close> are references or \<open>None\<close>:
  \<open>Some ()\<close> is the object held by the world. An optimizer object is truthy
  (line 67, \<open>if optimizer:\<close>), \<open>None\<close> is falsy.
\<close>

type_synonym ref = "unit option"

text \<open>
  The loop of lines 60 to 72, one equation per iteration. \<open>scheduler.step()\<close> on \<open>None\<close>
  raises \<open>AttributeError\<close>, after \<open>optimizer.step()\<close> has already run.
\<close>

fun run_batches ::
  "('b, 'm, 'o, 's) framework \<Rightarrow> 'b list \<Rightarrow> ref \<Rightarrow> ref \<Rightarrow> ('b, 'm, 'o, 's) world \<Rightarrow> real
     \<Rightarrow> ('b, 'm, 'o, 's) world \<times> (error + real)" where
  "run_batches F [] optimizer scheduler w total_loss = (w, Inr total_loss)"
| "run_batches F (batch # rest) optimizer scheduler w total_loss =
     (let loss = loss_of F (training w) (params w) batch;
          w1 = w\<lparr>trace := trace w @ [Forward batch loss]\<rparr>
      in case optimizer of
           None \<Rightarrow> run_batches F rest optimizer scheduler w1 (total_loss + loss)
         | Some _ \<Rightarrow>
             (let (opt', m') = optimizer_step F (opt_state w1) (params w1) batch;
                  w2 = w1\<lparr>params := m', opt_state := opt',
                          trace := trace w1 @ [ZeroGrad, Backward, OptimizerStep]\<rparr>
              in case scheduler of
                   None \<Rightarrow> (w2, Inl AttributeError)
                 | Some _ \<Rightarrow>
                     (let (sch', opt'') = scheduler_step F (sched_state w2) (opt_state w2);
                          w3 = w2\<lparr>opt_state := opt'', sched_state := sch',
                                  trace := trace w2 @ [SchedulerStep]\<rparr>
                      in run_batches F rest optimizer scheduler w3 (total_loss + loss))))"

text \<open>
  \<open>run_epoch\<close>, lines 52 to 73. \<open>data_loader\<close> is the list of batches that one pass over
  the loader yields, and \<open>len(data_loader)\<close> is its length. The assertion of lines 55 to
  58 is the first thing the call does; the division of line 73 raises
  \<open>ZeroDivisionError\<close> when the loader has no batch.
\<close>

definition run_epoch ::
  "('b, 'm, 'o, 's) framework \<Rightarrow> 'b list \<Rightarrow> ref \<Rightarrow> ref \<Rightarrow> ('b, 'm, 'o, 's) world
     \<Rightarrow> ('b, 'm, 'o, 's) world \<times> (error + real)" where
  "run_epoch F data_loader optimizer scheduler w =
     (if optimizer = None \<and> scheduler \<noteq> None then (w, Inl AssertionError)
      else case run_batches F data_loader optimizer scheduler w 0 of
             (w', Inl e) \<Rightarrow> (w', Inl e)
           | (w', Inr total_loss) \<Rightarrow>
               if length data_loader = 0 then (w', Inl ZeroDivisionError)
               else (w', Inr (total_loss / real (length data_loader))))"

text \<open>The loss values of the batches processed between two states of the world.\<close>

fun losses_of :: "('b, 'm) event list \<Rightarrow> real list" where
  "losses_of [] = []"
| "losses_of (Forward b l # es) = l # losses_of es"
| "losses_of (e # es) = losses_of es"

definition batch_losses ::
  "('b, 'm, 'o, 's) world \<Rightarrow> ('b, 'm, 'o, 's) world \<Rightarrow> real list" where
  "batch_losses w w' = losses_of (drop (length (trace w)) (trace w'))"

text \<open>
  The per-batch losses of a pass, from the framework and the batches alone: the loss of
  each batch is taken on the parameters as the batches before it have left them. With no
  optimizer the parameters stay as they are; with an optimizer each batch is followed by
  a step of the optimizer and a step of the scheduler.
\<close>

fun per_batch_losses ::
  "('b, 'm, 'o, 's) framework \<Rightarrow> ref \<Rightarrow> bool \<Rightarrow> 'm \<Rightarrow> 'o \<Rightarrow> 's \<Rightarrow> 'b list \<Rightarrow> real list" where
  "per_batch_losses F optimizer mode m opt sch [] = []"
| "per_batch_losses F None mode m opt sch (batch # rest) =
     loss_of F mode m batch # per_batch_losses F None mode m opt sch rest"
| "per_batch_losses F (Some u) mode m opt sch (batch # rest) =
     loss_of F mode m batch #
     (let (opt', m') = optimizer_step F opt m batch;
          (sch', opt'') = scheduler_step F sch opt'
      in per_batch_losses F (Some u) mode m' opt'' sch' rest)"


section \<open>The early-stop monitor\<close>

text \<open>
  Modelled from the spec: the class \<open>EarlyStopMonitor\<close> of \<open>utils.py\<close>, which is not among
  the sources. Its state is the best loss seen so far (initially unset), the counter of
  consecutive non-improving epochs, the stop flag (initially false) and the patience
  threshold.
\<close>

record monitor =
  best :: "real option"
  counter :: nat
  stop :: bool
  threshold :: int

text \<open>
  Modelled from the spec: the constructor \<open>EarlyStopMonitor(patience)\<close> of \<open>utils.py\<close>.
\<close>

definition EarlyStopMonitor :: "int \<Rightarrow> monitor" where
  "EarlyStopMonitor P = \<lparr>best = None, counter = 0, stop = False, threshold = P\<rparr>"

text \<open>
  Modelled from the spec: the call \<open>monitor(val_loss)\<close> of \<open>utils.py\<close>. A loss lower than the
  best (or the first loss) becomes the best and resets the counter, any other loss
  increments the counter; a counter that reaches or exceeds the patience sets the stop
  flag, and nothing clears it.
\<close>

definition monitor_call :: "monitor \<Rightarrow> real \<Rightarrow> monitor" where
  "monitor_call mon loss =
     (let mon1 = (case best mon of
                    None \<Rightarrow> mon\<lparr>best := Some loss, counter := 0\<rparr>
                  | Some b \<Rightarrow>
                      if loss < b then mon\<lparr>best := Some loss, counter := 0\<rparr>
                      else mon\<lparr>counter := counter mon + 1\<rparr>)
      in if threshold mon1 \<le> int (counter mon1) then mon1\<lparr>stop := True\<rparr> else mon1)"

text \<open>The monitor after a sequence of validation losses, fed one at a time.\<close>

definition monitor_run :: "int \<Rightarrow> real list \<Rightarrow> monitor" where
  "monitor_run P losses = foldl monitor_call (EarlyStopMonitor P) losses"

text \<open>
  The words of the specification, independently of the monitor's state: a loss improves
  on the running best when it is lower than every loss before it, and the streak of a
  sequence is the number of its trailing losses that all fail to improve.
\<close>

definition improves :: "real list \<Rightarrow> real \<Rightarrow> bool" where
  "improves before x = list_all (\<lambda>b. x < b) before"

definition fail_streak :: "real list \<Rightarrow> nat" where
  "fail_streak losses =
     length (takeWhile (\<lambda>k. \<not> improves (take k losses) (losses ! k)) (rev [0..<length losses]))"

section \<open>The training driver\<close>

fun monitored :: "('b, 'm) event list \<Rightarrow> real list" where
  "monitored [] = []"
| "monitored (Monitored l # es) = l # monitored es"
| "monitored (e # es) = monitored es"

fun checkpoints :: "('b, 'm) event list \<Rightarrow> 'm list" where
  "checkpoints [] = []"
| "checkpoints (SaveCheckpoint m # es) = m # checkpoints es"
| "checkpoints (e # es) = checkpoints es"

text \<open>
  A loader is iterated many times, and a shuffling loader yields other batches each time:
  \<open>loader k\<close> is the list of batches of its \<open>k\<close>-th pass. The training loader's pass 0 is
  the one of line 18, its pass \<open>epoch + 1\<close> the one of the epoch; the validation loader's
  pass \<open>epoch\<close> is the one of the epoch.
\<close>

type_synonym 'b loader = "nat \<Rightarrow> 'b list"

text \<open>
  The loop of lines 35 to 47, one equation per epoch. An exception in \<open>run_epoch\<close> leaves
  the loop and \<open>main\<close>; \<open>break\<close> leaves the loop with the stop flag set.
\<close>

fun epoch_loop ::
  "('b, 'm, 'o, 's) framework \<Rightarrow> 'b loader \<Rightarrow> 'b loader \<Rightarrow> nat list
     \<Rightarrow> ('b, 'm, 'o, 's) world \<Rightarrow> monitor
     \<Rightarrow> (('b, 'm, 'o, 's) world \<times> monitor) \<times> (error + unit)" where
  "epoch_loop F train_loader val_loader [] w mon = ((w, mon), Inr ())"
| "epoch_loop F train_loader val_loader (epoch # epochs) w mon =
     (case run_epoch F (train_loader (Suc epoch)) (Some ()) (Some ()) (w\<lparr>training := True\<rparr>) of
        (w1, Inl e) \<Rightarrow> ((w1, mon), Inl e)
      | (w1, Inr train_loss) \<Rightarrow>
          (case run_epoch F (val_loader epoch) None None (w1\<lparr>training := False\<rparr>) of
             (w2, Inl e) \<Rightarrow> ((w2, mon), Inl e)
           | (w2, Inr val_loss) \<Rightarrow>
               (let w3 = w2\<lparr>trace := trace w2 @
                               [Logged (int epoch) train_loss val_loss, Monitored val_loss]\<rparr>;
                    mon' = monitor_call mon val_loss
                in if stop mon'
                   then ((w3\<lparr>trace := trace w3 @ [SaveCheckpoint (params w3)]\<rparr>, mon'), Inr ())
                   else epoch_loop F train_loader val_loader epochs w3 mon')))"

text \<open>
  \<open>main\<close>, lines 13 to 49. The world \<open>w\<close> holds the model of lines 21 to 25 and the
  optimizer and scheduler of lines 27 to 32. Line 18 takes the first batch of a pass over
  the training loader and raises \<open>StopIteration\<close> when there is none;
  \<open>range(num_epochs)\<close> is empty for \<open>num_epochs \<le> 0\<close>.
\<close>

definition main ::
  "('b, 'm, 'o, 's) framework \<Rightarrow> int \<Rightarrow> int \<Rightarrow> 'b loader \<Rightarrow> 'b loader
     \<Rightarrow> ('b, 'm, 'o, 's) world \<Rightarrow> ('b, 'm, 'o, 's) world \<times> (error + unit)" where
  "main F num_epochs patience train_loader val_loader w =
     (case train_loader 0 of
        [] \<Rightarrow> (w, Inl StopIteration)
      | _ # _ \<Rightarrow>
          (case epoch_loop F train_loader val_loader [0..<nat num_epochs] w
                  (EarlyStopMonitor patience) of
             ((w', mon), Inl e) \<Rightarrow> (w', Inl e)
           | ((w', mon), Inr _) \<Rightarrow>
               if \<not> stop mon
               then (w'\<lparr>trace := trace w' @ [SaveCheckpoint (params w')]\<rparr>, Inr ())
               else (w', Inr ())))"

section \<open>The learning-rate schedule\<close>

text \<open>
  Modelled from the spec: \<open>get_linear_schedule_with_warmup\<close>, a function of the
  pretrained-model library and not among the sources. The multiplier of the learning rate
  ramps linearly from zero to one over the warmup steps, then decays linearly to zero at
  the last training step, and stays there.
\<close>

definition lr_lambda :: "int \<Rightarrow> int \<Rightarrow> int \<Rightarrow> real" where
  "lr_lambda num_warmup_steps num_training_steps current_step =
     (if current_step < num_warmup_steps
      then real_of_int current_step / real_of_int (max 1 num_warmup_steps)
      else max 0 (real_of_int (num_training_steps - current_step) /
                  real_of_int (max 1 (num_training_steps - num_warmup_steps))))"

text \<open>
  Lines 27 to 32: the peak is the optimizer's \<open>lr=2e-5\<close>, the warmup has
  \<open>num_warmup_steps=0\<close> steps and the training has \<open>num_epochs * len(train_loader)\<close> steps.
  \<open>learning_rate num_epochs n k\<close> is the rate after \<open>k\<close> calls of \<open>scheduler.step()\<close>, for a
  training loader of \<open>n\<close> batches.
\<close>

definition learning_rate :: "int \<Rightarrow> nat \<Rightarrow> nat \<Rightarrow> real" where
  "learning_rate num_epochs len_train_loader k =
     (2 / 100000) * lr_lambda 0 (num_epochs * int len_train_loader) (int k)"

section \<open>The command line\<close>

text \<open>
  Lines 77 to 97 declare the arguments with the standard library's \<open>argparse\<close>. An
  argument is what \<open>add_argument\<close> records: its option string, the attribute it writes
  (\<open>dest\<close>), its action, its type conversion, its default and its choices.
\<close>

datatype action = Store | StoreTrue | StoreFalse

datatype pytype = PyStr | PyInt | PyFloat

datatype pyval = VStr string | VInt int | VFloat real | VBool bool

record argument =
  option_string :: string
  dest :: string
  action :: action
  arg_type :: "pytype option"
  arg_default :: pyval
  choices :: "string list option"

text \<open>
  \<open>add_argument(name, type=, default=, choices=)\<close>: the action is \<open>store\<close> and the
  attribute is the option string without its leading dashes, inner dashes replaced by
  underscores.
\<close>

definition add_argument :: "string \<Rightarrow> pytype \<Rightarrow> pyval \<Rightarrow> string list option \<Rightarrow> argument" where
  "add_argument name ty d cs =
     \<lparr>option_string = name,
      dest = map (\<lambda>c. if c = CHR ''-'' then CHR ''_'' else c) (dropWhile (\<lambda>c. c = CHR ''-'') name),
      action = Store, arg_type = Some ty, arg_default = d, choices = cs\<rparr>"

text \<open>
  \<open>add_argument(name, dest=, action="store_true")\<close> and \<open>action="store_false"\<close>: a switch
  that takes no value; its default is the opposite of what it stores.
\<close>

definition add_store_true :: "string \<Rightarrow> string \<Rightarrow> argument" where
  "add_store_true name d =
     \<lparr>option_string = name, dest = d, action = StoreTrue, arg_type = None,
      arg_default = VBool False, choices = None\<rparr>"

definition add_store_false :: "string \<Rightarrow> string \<Rightarrow> argument" where
  "add_store_false name d =
     \<lparr>option_string = name, dest = d, action = StoreFalse, arg_type = None,
      arg_default = VBool True, choices = None\<rparr>"

text \<open>
  \<open>set_defaults(d=v)\<close> replaces the default of every argument already declared that
  writes the attribute \<open>d\<close>.
\<close>

definition set_defaults :: "string \<Rightarrow> pyval \<Rightarrow> argument list \<Rightarrow> argument list" where
  "set_defaults d v args = map (\<lambda>a. if dest a = d then a\<lparr>arg_default := v\<rparr> else a) args"

text \<open>The parser of lines 77 to 96, its arguments in the order of their declaration.\<close>

definition parser :: "argument list" where
  "parser =
     set_defaults ''freeze_bert'' (VBool True)
       [add_argument ''--model_name'' PyStr (VStr ''roberta'')
          (Some [''roberta-base'', ''distilbert-base-uncased'', ''allenai/longformer-base-4096'']),
        add_argument ''--weight_path'' PyStr (VStr []) None,
        add_argument ''--dropout'' PyFloat (VFloat (1 / 2)) None,
        add_argument ''--num_epochs'' PyInt (VInt 15) None,
        add_argument ''--log_interval'' PyInt (VInt 1) None,
        add_argument ''--batch_size'' PyInt (VInt 16) None,
        add_argument ''--patience'' PyInt (VInt 2) None,
        add_store_true ''--freeze_bert'' ''freeze_bert'',
        add_store_false ''--unfreeze_bert'' ''freeze_bert'']"

text \<open>
  The namespace maps an attribute to its value. Before it reads the command line,
  \<open>parse_args\<close> gives every attribute that has no value yet the default of the first
  argument that writes it. A default is not checked against the choices, and the two
  string defaults are their own conversion by \<open>str\<close>.
\<close>

type_synonym namespace = "string \<rightharpoonup> pyval"

definition defaults :: "argument list \<Rightarrow> namespace" where
  "defaults args =
     foldl (\<lambda>ns a. case ns (dest a) of None \<Rightarrow> ns(dest a \<mapsto> arg_default a) | Some _ \<Rightarrow> ns)
       Map.empty args"

text \<open>
  The conversions \<open>int\<close> and \<open>float\<close> of a string are Python's own and are parameters;
  \<open>None\<close> is their \<open>ValueError\<close>.
\<close>

record conversions =
  py_int :: "string \<Rightarrow> int option"
  py_float :: "string \<Rightarrow> real option"

fun convert :: "conversions \<Rightarrow> pytype option \<Rightarrow> string \<Rightarrow> pyval option" where
  "convert C None s = Some (VStr s)"
| "convert C (Some PyStr) s = Some (VStr s)"
| "convert C (Some PyInt) s = map_option VInt (py_int C s)"
| "convert C (Some PyFloat) s = map_option VFloat (py_float C s)"

definition in_choices :: "argument \<Rightarrow> string \<Rightarrow> bool" where
  "in_choices a s = (case choices a of None \<Rightarrow> True | Some cs \<Rightarrow> List.member cs s)"

definition starts_with_dash :: "string \<Rightarrow> bool" where
  "starts_with_dash tok = (case tok of [] \<Rightarrow> False | c # _ \<Rightarrow> c = CHR ''-'')"

text \<open>
  The outcome of parsing: a namespace, or the exit of the process that every error of
  the parser ends in. This model reads the command lines whose tokens are option strings
  written in full, each \<open>store\<close> option followed by a value that does not start with a
  dash; on the other forms \<open>argparse\<close> accepts (abbreviated options, \<open>--option=value\<close>,
  values such as negative numbers) it answers \<open>Unmodelled\<close> and says nothing.
\<close>

datatype 'a parse = Parsed 'a | SystemExit | Unmodelled

text \<open>
  The tokens are consumed from left to right and each action writes its attribute, so a
  later occurrence overwrites an earlier one. A token that is no option and no value is
  an unrecognized argument; a \<open>store\<close> option at the end of the line lacks its argument;
  a value that does not convert, or is not among the choices, is invalid.
\<close>

fun parse_tokens ::
  "conversions \<Rightarrow> argument list \<Rightarrow> string list \<Rightarrow> namespace \<Rightarrow> namespace parse" where
  "parse_tokens C args [] ns = Parsed ns"
| "parse_tokens C args (tok # rest) ns =
     (case find (\<lambda>a. option_string a = tok) args of
        None \<Rightarrow> if starts_with_dash tok then Unmodelled else SystemExit
      | Some a \<Rightarrow>
          (case action a of
             StoreTrue \<Rightarrow> parse_tokens C args rest (ns(dest a \<mapsto> VBool True))
           | StoreFalse \<Rightarrow> parse_tokens C args rest (ns(dest a \<mapsto> VBool False))
           | Store \<Rightarrow>
               (case rest of
                  [] \<Rightarrow> SystemExit
                | v # rest' \<Rightarrow>
                    if starts_with_dash v then Unmodelled
                    else (case convert C (arg_type a) v of
                            None \<Rightarrow> SystemExit
                          | Some x \<Rightarrow>
                              if in_choices a v
                              then parse_tokens C args rest' (ns(dest a \<mapsto> x))
                              else SystemExit))))"

text \<open>Line 97, \<open>parser.parse_args()\<close>, on the tokens of the command line.\<close>

definition parse_args :: "conversions \<Rightarrow> string list \<Rightarrow> namespace parse" where
  "parse_args C argv = parse_tokens C parser argv (defaults parser)"

text \<open>
  The switches among the tokens of a command line, in their order, and the value of an
  attribute after parsing.
\<close>

definition switches :: "string list \<Rightarrow> string list" where
  "switches argv = filter (\<lambda>tok. tok = ''--freeze_bert'' \<or> tok = ''--unfreeze_bert'') argv"

fun attribute :: "namespace parse \<Rightarrow> string \<Rightarrow> pyval option" where
  "attribute (Parsed ns) d = ns d"
| "attribute SystemExit d = None"
| "attribute Unmodelled d = None"

section \<open>Concrete collaborators\<close>

text \<open>
  A small framework on which the model can be evaluated: a batch is a number, the
  parameters are an integer, the loss of a batch is the batch plus the parameters, and
  each step of the optimizer adds one to the parameters; the optimizer and the scheduler
  count their steps.
\<close>

definition sample_framework :: "(real, int, nat, nat) framework" where
  "sample_framework =
     \<lparr>loss_of = (\<lambda>mode m b. b + real_of_int m),
      optimizer_step = (\<lambda>opt m b. (Suc opt, m + 1)),
      scheduler_step = (\<lambda>sch opt. (Suc sch, opt))\<rparr>"

definition sample_world :: "(real, int, nat, nat) world" where
  "sample_world = \<lparr>training = False, params = 0, opt_state = 0, sched_state = 0, trace = []\<rparr>"

text \<open>Conversions that refuse every string, for command lines that carry no number.\<close>

definition no_numbers :: conversions where
  "no_numbers = \<lparr>py_int = (\<lambda>s. None), py_float = (\<lambda>s. None)\<rparr>"

section \<open>Properties of the epoch runner\<close>

lemma losses_of_append: "losses_of (es @ fs) = losses_of es @ losses_of fs"
  by (induction es rule: losses_of.induct) simp_all

lemma monitored_append: "monitored (es @ fs) = monitored es @ monitored fs"
  by (induction es rule: monitored.induct) simp_all

lemma checkpoints_append: "checkpoints (es @ fs) = checkpoints es @ checkpoints fs"
  by (induction es rule: checkpoints.induct) simp_all

text \<open>
  The loop only appends to the trace, and what it appends holds no call of the monitor
  and no checkpoint; when it ends normally, the accumulated total is the initial total
  plus the losses of the batches, one per batch.
\<close>

lemma run_batches_trace:
  "run_batches F data_loader optimizer scheduler w total_loss = (w', r) \<Longrightarrow>
     \<exists>es. trace w' = trace w @ es \<and> monitored es = [] \<and> checkpoints es = [] \<and>
       (\<forall>v. r = Inr v \<longrightarrow>
          v = total_loss + sum_list (losses_of es) \<and> length (losses_of es) = length data_loader)"
proof (induction data_loader arbitrary: w total_loss)
  case Nil
  then show ?case by auto
next
  case (Cons batch rest)
  define loss where "loss = loss_of F (training w) (params w) batch"
  define w1 where "w1 = w\<lparr>trace := trace w @ [Forward batch loss]\<rparr>"
  show ?case
  proof (cases optimizer)
    case None
    with Cons.prems have "run_batches F rest optimizer scheduler w1 (total_loss + loss) = (w', r)"
      by (simp add: Let_def w1_def loss_def)
    from Cons.IH [OF this] obtain es where
      es: "trace w' = trace w1 @ es" "monitored es = []" "checkpoints es = []"
        "\<forall>v. r = Inr v \<longrightarrow>
           v = total_loss + loss + sum_list (losses_of es) \<and> length (losses_of es) = length rest"
      by blast
    let ?es = "Forward batch loss # es"
    have "trace w' = trace w @ ?es"
      using es(1) by (simp add: w1_def)
    moreover have "monitored ?es = []" "checkpoints ?es = []"
      using es(2,3) by simp_all
    moreover have "\<forall>v. r = Inr v \<longrightarrow>
        v = total_loss + sum_list (losses_of ?es) \<and>
        length (losses_of ?es) = length (batch # rest)"
      using es(4) by (auto simp: add.assoc)
    ultimately show ?thesis by blast
  next
    case (Some u)
    obtain opt' m' where os: "optimizer_step F (opt_state w1) (params w1) batch = (opt', m')"
      by (cases "optimizer_step F (opt_state w1) (params w1) batch")
    define w2 where "w2 = w1\<lparr>params := m', opt_state := opt',
                          trace := trace w1 @ [ZeroGrad, Backward, OptimizerStep]\<rparr>"
    show ?thesis
    proof (cases scheduler)
      case None
      with Some Cons.prems os have "w' = w2" "r = Inl AttributeError"
        by (simp_all add: Let_def w1_def w2_def loss_def)
      then have "trace w' = trace w @ [Forward batch loss, ZeroGrad, Backward, OptimizerStep]"
        by (simp add: w2_def w1_def)
      then show ?thesis
        using \<open>r = Inl AttributeError\<close> by auto
    next
      case (Some u')
      obtain sch' opt'' where ss: "scheduler_step F (sched_state w2) (opt_state w2) = (sch', opt'')"
        by (cases "scheduler_step F (sched_state w2) (opt_state w2)")
      define w3 where "w3 = w2\<lparr>opt_state := opt'', sched_state := sch',
                                  trace := trace w2 @ [SchedulerStep]\<rparr>"
      from Some \<open>optimizer = Some u\<close> Cons.prems os ss
      have "run_batches F rest optimizer scheduler w3 (total_loss + loss) = (w', r)"
        by (simp add: Let_def w1_def w2_def w3_def loss_def)
      from Cons.IH [OF this] obtain es where
        es: "trace w' = trace w3 @ es" "monitored es = []" "checkpoints es = []"
          "\<forall>v. r = Inr v \<longrightarrow>
             v = total_loss + loss + sum_list (losses_of es) \<and> length (losses_of es) = length rest"
        by blast
      let ?es = "Forward batch loss # ZeroGrad # Backward # OptimizerStep # SchedulerStep # es"
      have "trace w' = trace w @ ?es"
        using es(1) by (simp add: w3_def w2_def w1_def)
      moreover have "monitored ?es = []" "checkpoints ?es = []"
        using es(2,3) by simp_all
      moreover have "\<forall>v. r = Inr v \<longrightarrow>
          v = total_loss + sum_list (losses_of ?es) \<and>
          length (losses_of ?es) = length (batch # rest)"
        using es(4) by (auto simp: add.assoc)
      ultimately show ?thesis by blast
    qed
  qed
qed

lemma run_epoch_trace:
  assumes "run_epoch F data_loader optimizer scheduler w = (w', r)"
  shows "\<exists>es. trace w' = trace w @ es \<and> monitored es = [] \<and> checkpoints es = []"
proof (cases "optimizer = None \<and> scheduler \<noteq> None")
  case True
  with assms have "w' = w" by (simp add: run_epoch_def)
  then show ?thesis by simp
next
  case False
  obtain w1 r1 where rb: "run_batches F data_loader optimizer scheduler w 0 = (w1, r1)"
    by (cases "run_batches F data_loader optimizer scheduler w 0")
  with False assms have "w' = w1"
    by (auto simp: run_epoch_def split: sum.splits if_splits)
  with run_batches_trace [OF rb] show ?thesis by blast
qed

lemma run_batches_returns:
  "(optimizer = None) = (scheduler = None) \<Longrightarrow>
     \<exists>w' v. run_batches F data_loader optimizer scheduler w total_loss = (w', Inr v)"
  by (induction data_loader arbitrary: w total_loss)
     (auto simp: Let_def split: option.splits prod.splits)

lemma run_epoch_returns:
  assumes "data_loader \<noteq> []" "(optimizer = None) = (scheduler = None)"
  shows "\<exists>w' v. run_epoch F data_loader optimizer scheduler w = (w', Inr v)"
proof -
  from run_batches_returns [OF assms(2)] obtain w' t where
    "run_batches F data_loader optimizer scheduler w 0 = (w', Inr t)"
    by blast
  moreover have "\<not> (optimizer = None \<and> scheduler \<noteq> None)"
    using assms(2) by simp
  ultimately show ?thesis
    using assms(1) by (simp add: run_epoch_def)
qed

lemma run_batches_eval_frame:
  "run_batches F data_loader None scheduler w total_loss = (w', r) \<Longrightarrow>
     params w' = params w \<and> opt_state w' = opt_state w \<and> sched_state w' = sched_state w"
  by (induction data_loader arbitrary: w total_loss) (auto simp: Let_def)

text \<open>
  C3. A call of \<open>run_epoch\<close> with no optimizer and a scheduler fails at once with the
  assertion error: the world, its trace included, is as before the call, so no batch has
  been processed.
\<close>

theorem run_epoch_scheduler_without_optimizer:
  "run_epoch F data_loader None (Some s) w = (w, Inl AssertionError)"
  by (simp add: run_epoch_def)

theorem run_epoch_scheduler_without_optimizer_witness:
  "run_epoch sample_framework [1, 3] None (Some ()) sample_world
     = (sample_world, Inl AssertionError)"
  using run_epoch_scheduler_without_optimizer [of sample_framework "[1, 3]" "()" sample_world]
  by simp

text \<open>
  The total the loop returns is the initial total plus the per-batch losses, and these
  are the losses it has put on the trace.
\<close>

lemma run_batches_losses:
  "run_batches F data_loader optimizer scheduler w total_loss = (w', Inr v) \<Longrightarrow>
     v = total_loss + sum_list (per_batch_losses F optimizer (training w) (params w)
                                  (opt_state w) (sched_state w) data_loader) \<and>
     trace w' = trace w @ drop (length (trace w)) (trace w') \<and>
     losses_of (drop (length (trace w)) (trace w')) =
       per_batch_losses F optimizer (training w) (params w) (opt_state w) (sched_state w)
         data_loader"
proof (induction data_loader arbitrary: w total_loss)
  case Nil
  then show ?case by auto
next
  case (Cons batch rest)
  define loss where "loss = loss_of F (training w) (params w) batch"
  define w1 where "w1 = w\<lparr>trace := trace w @ [Forward batch loss]\<rparr>"
  show ?case
  proof (cases optimizer)
    case None
    with Cons.prems have r: "run_batches F rest None scheduler w1 (total_loss + loss) = (w', Inr v)"
      by (simp add: Let_def w1_def loss_def)
    from Cons.IH [OF r [folded None]] None have
      ih: "v = total_loss + loss + sum_list (per_batch_losses F None (training w) (params w)
                                  (opt_state w) (sched_state w) rest)"
        "trace w' = trace w1 @ drop (length (trace w1)) (trace w')"
        "losses_of (drop (length (trace w1)) (trace w')) =
           per_batch_losses F None (training w) (params w) (opt_state w) (sched_state w) rest"
      by (simp_all add: w1_def)
    have tr: "trace w' = trace w @ Forward batch loss # drop (length (trace w1)) (trace w')"
      using ih(2) by (simp add: w1_def)
    have dr: "drop (length (trace w)) (trace w')
                = Forward batch loss # drop (length (trace w1)) (trace w')"
      by (subst tr) simp
    show ?thesis
      using ih(1,3) dr tr None by (simp add: loss_def add.assoc)
  next
    case (Some u)
    obtain opt' m' where os: "optimizer_step F (opt_state w) (params w) batch = (opt', m')"
      by (cases "optimizer_step F (opt_state w) (params w) batch")
    define w2 where "w2 = w1\<lparr>params := m', opt_state := opt',
                          trace := trace w1 @ [ZeroGrad, Backward, OptimizerStep]\<rparr>"
    obtain u' where sch: "scheduler = Some u'"
      using Cons.prems Some os by (cases scheduler) (simp_all add: Let_def)
    obtain sch' opt'' where ss: "scheduler_step F (sched_state w) opt' = (sch', opt'')"
      by (cases "scheduler_step F (sched_state w) opt'")
    define w3 where "w3 = w2\<lparr>opt_state := opt'', sched_state := sch',
                                  trace := trace w2 @ [SchedulerStep]\<rparr>"
    from Some sch Cons.prems os ss
    have r: "run_batches F rest optimizer scheduler w3 (total_loss + loss) = (w', Inr v)"
      by (simp add: Let_def w1_def w2_def w3_def loss_def)
    have w3s: "training w3 = training w" "params w3 = m'" "opt_state w3 = opt''"
      "sched_state w3 = sch'"
      "trace w3 = trace w @ [Forward batch loss, ZeroGrad, Backward, OptimizerStep, SchedulerStep]"
      by (simp_all add: w3_def w2_def w1_def)
    from Cons.IH [OF r] have
      ih: "v = total_loss + loss + sum_list (per_batch_losses F optimizer (training w) m' opt'' sch' rest)"
        "trace w' = trace w3 @ drop (length (trace w3)) (trace w')"
        "losses_of (drop (length (trace w3)) (trace w')) =
           per_batch_losses F optimizer (training w) m' opt'' sch' rest"
      by (simp_all only: w3s)
    let ?pre = "[Forward batch loss, ZeroGrad, Backward, OptimizerStep, SchedulerStep]"
    have tr: "trace w' = trace w @ ?pre @ drop (length (trace w3)) (trace w')"
      using ih(2) by (simp add: w3s(5))
    have dr: "drop (length (trace w)) (trace w') = ?pre @ drop (length (trace w3)) (trace w')"
      by (subst tr) simp
    have pb: "per_batch_losses F optimizer (training w) (params w) (opt_state w) (sched_state w)
                (batch # rest)
              = loss # per_batch_losses F optimizer (training w) m' opt'' sch' rest"
      using Some os ss by (simp add: loss_def)
    have "losses_of (drop (length (trace w)) (trace w')) =
            loss # per_batch_losses F optimizer (training w) m' opt'' sch' rest"
      using ih(3) by (simp only: dr) simp
    moreover have "trace w' = trace w @ drop (length (trace w)) (trace w')"
      by (simp only: dr) (rule tr)
    ultimately show ?thesis
      using ih(1) by (simp only: pb) (simp add: add.assoc)
  qed
qed

lemma length_per_batch_losses:
  "length (per_batch_losses F optimizer mode m opt sch data_loader) = length data_loader"
  by (induction F optimizer mode m opt sch data_loader rule: per_batch_losses.induct)
     (simp_all add: Let_def split: prod.splits)

lemma per_batch_losses_eval:
  "per_batch_losses F None mode m opt sch data_loader = map (loss_of F mode m) data_loader"
  by (induction data_loader) simp_all

text \<open>
  C4. On a loader that yields at least one batch, whenever \<open>run_epoch\<close> returns a value,
  that value is the sum of the per-batch losses divided by the number of batches, the
  per-batch losses being those the framework gives for the batches and the parameters
  at the time of each batch (and the ones the call has put on its trace); in an evaluation
  pass these are the losses of the batches on the unchanged parameters. The call does
  return a value when the optimizer and the scheduler are both given or both absent.
\<close>

theorem run_epoch_mean_loss:
  assumes "data_loader \<noteq> []"
  shows "(\<forall>w' v. run_epoch F data_loader optimizer scheduler w = (w', Inr v) \<longrightarrow>
            v = sum_list (per_batch_losses F optimizer (training w) (params w) (opt_state w)
                            (sched_state w) data_loader) / real (length data_loader) \<and>
            batch_losses w w' = per_batch_losses F optimizer (training w) (params w)
                                  (opt_state w) (sched_state w) data_loader)
       \<and> ((optimizer = None) = (scheduler = None) \<longrightarrow>
            (\<exists>w' v. run_epoch F data_loader optimizer scheduler w = (w', Inr v)))
       \<and> snd (run_epoch F data_loader None None w) =
            Inr (sum_list (map (loss_of F (training w) (params w)) data_loader) /
                 real (length data_loader))
       \<and> length (per_batch_losses F optimizer (training w) (params w) (opt_state w)
                    (sched_state w) data_loader) = length data_loader"
proof (intro conjI allI impI)
  fix w' v
  assume r: "run_epoch F data_loader optimizer scheduler w = (w', Inr v)"
  then obtain t where t: "run_batches F data_loader optimizer scheduler w 0 = (w', Inr t)"
    and v: "v = t / real (length data_loader)"
    using assms by (auto simp: run_epoch_def split: if_splits prod.splits sum.splits)
  note l = run_batches_losses [OF t]
  show "v = sum_list (per_batch_losses F optimizer (training w) (params w) (opt_state w)
                            (sched_state w) data_loader) / real (length data_loader)"
    using l v by simp
  show "batch_losses w w' = per_batch_losses F optimizer (training w) (params w)
                                  (opt_state w) (sched_state w) data_loader"
    using l by (simp add: batch_losses_def)
next
  assume "(optimizer = None) = (scheduler = None)"
  with assms show "\<exists>w' v. run_epoch F data_loader optimizer scheduler w = (w', Inr v)"
    by (rule run_epoch_returns)
next
  from run_epoch_returns [OF assms, of None None F w] obtain w' v where
    r: "run_epoch F data_loader None None w = (w', Inr v)"
    by auto
  then obtain t where t: "run_batches F data_loader None None w 0 = (w', Inr t)"
    and v: "v = t / real (length data_loader)"
    using assms by (auto simp: run_epoch_def split: if_splits prod.splits sum.splits)
  from run_batches_losses [OF t] v r
  show "snd (run_epoch F data_loader None None w) =
            Inr (sum_list (map (loss_of F (training w) (params w)) data_loader) /
                 real (length data_loader))"
    by (simp add: per_batch_losses_eval)
next
  show "length (per_batch_losses F optimizer (training w) (params w) (opt_state w)
                    (sched_state w) data_loader) = length data_loader"
    by (rule length_per_batch_losses)
qed

theorem run_epoch_mean_loss_witness:
  "[1, 3] \<noteq> ([] :: real list) \<and>
   snd (run_epoch sample_framework [1, 3] None None sample_world) = Inr 2 \<and>
   snd (run_epoch sample_framework [1, 3] (Some ()) (Some ()) sample_world) = Inr (5 / 2) \<and>
   per_batch_losses sample_framework (Some ()) False 0 0 0 [1, 3] = [1, 4] \<and>
   batch_losses sample_world
     (fst (run_epoch sample_framework [1, 3] (Some ()) (Some ()) sample_world)) = [1, 4]"
  using run_epoch_mean_loss [of "[1, 3]" sample_framework "Some ()" "Some ()" sample_world]
  by (simp add: run_epoch_def Let_def sample_framework_def sample_world_def batch_losses_def)

text \<open>
  C5. A call of \<open>run_epoch\<close> with no optimizer and no scheduler updates nothing: the
  parameters of the model after the call are those before it, and so are the states of
  the optimizer and of the scheduler, whatever the call returns.
\<close>

theorem run_epoch_eval_no_update:
  "run_epoch F data_loader None None w = (w', r) \<Longrightarrow>
     params w' = params w \<and> opt_state w' = opt_state w \<and> sched_state w' = sched_state w"
  using run_batches_eval_frame [of F data_loader None w 0]
  by (auto simp: run_epoch_def split: prod.splits sum.splits if_splits)

theorem run_epoch_eval_no_update_witness:
  "params (fst (run_epoch sample_framework [1, 3] None None sample_world)) = 0 \<and>
   snd (run_epoch sample_framework [1, 3] None None sample_world) = Inr 2"
  using run_epoch_eval_no_update [of sample_framework "[1, 3]" sample_world
      "fst (run_epoch sample_framework [1, 3] None None sample_world)"
      "snd (run_epoch sample_framework [1, 3] None None sample_world)"]
  by (simp add: run_epoch_def Let_def sample_framework_def sample_world_def)

text \<open>
  C6. A call of \<open>run_epoch\<close> with an optimizer and no scheduler on a loader that yields at
  least one batch passes the assertion and raises at the first batch, when it steps the
  scheduler: the forward pass and the optimizer step of that batch have run, nothing
  else has.
\<close>

theorem run_epoch_optimizer_without_scheduler:
  "run_epoch F (batch # rest) (Some u) None w =
     (w\<lparr>params := snd (optimizer_step F (opt_state w) (params w) batch),
        opt_state := fst (optimizer_step F (opt_state w) (params w) batch),
        trace := trace w @ [Forward batch (loss_of F (training w) (params w) batch),
                            ZeroGrad, Backward, OptimizerStep]\<rparr>,
      Inl AttributeError)"
  by (simp add: run_epoch_def Let_def split: prod.splits)

theorem run_epoch_optimizer_without_scheduler_witness:
  "run_epoch sample_framework [1, 3] (Some ()) None sample_world =
     (\<lparr>training = False, params = 1, opt_state = 1, sched_state = 0,
       trace = [Forward 1 1, ZeroGrad, Backward, OptimizerStep]\<rparr>,
      Inl AttributeError)"
  using run_epoch_optimizer_without_scheduler [of sample_framework 1 "[3]" "()" sample_world]
  by (simp add: sample_framework_def sample_world_def)

text \<open>
  C10. On a loader that yields no batch \<open>run_epoch\<close> never returns a mean loss; every call
  that passes the assertion reaches the division and fails there with
  \<open>ZeroDivisionError\<close>, the world unchanged.
\<close>

theorem run_epoch_empty_loader:
  "(\<forall>w' v. run_epoch F [] optimizer scheduler w \<noteq> (w', Inr v))
   \<and> (\<not> (optimizer = None \<and> scheduler \<noteq> None) \<longrightarrow>
        run_epoch F [] optimizer scheduler w = (w, Inl ZeroDivisionError))"
  by (simp add: run_epoch_def)

theorem run_epoch_empty_loader_witness:
  "run_epoch sample_framework [] (Some ()) (Some ()) sample_world
     = (sample_world, Inl ZeroDivisionError)"
  using run_epoch_empty_loader [of sample_framework "Some ()" "Some ()" sample_world]
  by simp

section \<open>Properties of the early-stop monitor\<close>

lemma monitor_run_snoc:
  "monitor_run P (xs @ [x]) = monitor_call (monitor_run P xs) x"
  by (simp add: monitor_run_def)

lemma threshold_monitor_call [simp]: "threshold (monitor_call mon x) = threshold mon"
  by (simp add: monitor_call_def Let_def split: option.splits)

lemma threshold_monitor_run [simp]: "threshold (monitor_run P xs) = P"
  by (induction xs rule: rev_induct) (simp_all add: monitor_run_snoc, simp add: monitor_run_def EarlyStopMonitor_def)

lemma best_monitor_run:
  "best (monitor_run P xs) = (if xs = [] then None else Some (Min (set xs)))"
proof (induction xs rule: rev_induct)
  case Nil
  then show ?case by (simp add: monitor_run_def EarlyStopMonitor_def)
next
  case (snoc x xs)
  show ?case
  proof (cases "xs = []")
    case True
    then show ?thesis
      by (simp add: monitor_run_def EarlyStopMonitor_def monitor_call_def Let_def)
  next
    case False
    then have b: "best (monitor_run P xs) = Some (Min (set xs))"
      using snoc by simp
    have "Min (set (xs @ [x])) = min x (Min (set xs))"
      using False by simp
    then show ?thesis
      using b by (auto simp: monitor_run_snoc monitor_call_def Let_def min_def)
  qed
qed

lemma improves_iff: "improves xs x \<longleftrightarrow> (xs = [] \<or> x < Min (set xs))"
  by (cases "xs = []") (auto simp: improves_def list_all_iff)

lemma fail_streak_snoc:
  "fail_streak (xs @ [x]) = (if improves xs x then 0 else Suc (fail_streak xs))"
proof -
  have "takeWhile (\<lambda>k. \<not> improves (take k (xs @ [x])) ((xs @ [x]) ! k)) (rev [0..<length xs])
      = takeWhile (\<lambda>k. \<not> improves (take k xs) (xs ! k)) (rev [0..<length xs])"
    by (rule takeWhile_cong) (auto simp: nth_append)
  then show ?thesis by (simp add: fail_streak_def)
qed

lemma counter_monitor_run: "counter (monitor_run P xs) = fail_streak xs"
proof (induction xs rule: rev_induct)
  case Nil
  then show ?case by (simp add: monitor_run_def EarlyStopMonitor_def fail_streak_def)
next
  case (snoc x xs)
  then show ?case
    by (auto simp: monitor_run_snoc monitor_call_def Let_def fail_streak_snoc improves_iff
          best_monitor_run split: option.splits)
qed

lemma stop_monitor_call:
  "stop (monitor_call mon x) \<longleftrightarrow> stop mon \<or> threshold mon \<le> int (counter (monitor_call mon x))"
  by (auto simp: monitor_call_def Let_def split: option.splits)

lemma stop_monitor_run_snoc:
  "stop (monitor_run P (xs @ [x])) \<longleftrightarrow> stop (monitor_run P xs) \<or> P \<le> int (fail_streak (xs @ [x]))"
  using stop_monitor_call [of "monitor_run P xs" x]
  by (simp add: monitor_run_snoc [symmetric] counter_monitor_run)

lemma stop_monitor_run_iff:
  "stop (monitor_run P xs) \<longleftrightarrow> (\<exists>k\<in>{1..length xs}. P \<le> int (fail_streak (take k xs)))"
proof (induction xs rule: rev_induct)
  case Nil
  then show ?case by (simp add: monitor_run_def EarlyStopMonitor_def)
next
  case (snoc x xs)
  have "(\<exists>k\<in>{1..length (xs @ [x])}. P \<le> int (fail_streak (take k (xs @ [x]))))
      \<longleftrightarrow> (\<exists>k\<in>{1..length xs}. P \<le> int (fail_streak (take k (xs @ [x]))))
          \<or> P \<le> int (fail_streak (xs @ [x]))"
  proof -
    have "{1..length (xs @ [x])} = insert (Suc (length xs)) {1..length xs}"
      by auto
    then show ?thesis by auto
  qed
  also have "(\<exists>k\<in>{1..length xs}. P \<le> int (fail_streak (take k (xs @ [x]))))
      \<longleftrightarrow> (\<exists>k\<in>{1..length xs}. P \<le> int (fail_streak (take k xs)))"
    by auto
  finally show ?case
    using snoc by (simp only: stop_monitor_run_snoc)
qed

lemma stop_monitor_run_append:
  "stop (monitor_run P xs) \<Longrightarrow> stop (monitor_run P (xs @ ys))"
  by (induction ys rule: rev_induct)
     (simp_all add: append_assoc [symmetric] stop_monitor_run_snoc del: append_assoc)

text \<open>
  C1. For every patience and every sequence of validation losses, the stop flag is set
  after the sequence if and only if, after some loss of the sequence, the number of
  consecutive losses failing to improve on the running best has reached the patience;
  a flag that is set stays set whatever losses follow; and for the losses 0.9, 0.8,
  0.85, 0.86 with patience 2 the flag is clear after none, one, two and three losses and
  set after the fourth.
\<close>

theorem early_stop_monitor:
  "(stop (monitor_run P xs) \<longleftrightarrow> (\<exists>k\<in>{1..length xs}. P \<le> int (fail_streak (take k xs))))
   \<and> (stop (monitor_run P xs) \<longrightarrow> stop (monitor_run P (xs @ ys)))
   \<and> map (\<lambda>k. stop (monitor_run 2 (take k [0.9, 0.8, 0.85, 0.86]))) [0..<5]
       = [False, False, False, False, True]"
proof (intro conjI)
  show "stop (monitor_run P xs) \<longleftrightarrow> (\<exists>k\<in>{1..length xs}. P \<le> int (fail_streak (take k xs)))"
    by (rule stop_monitor_run_iff)
  show "stop (monitor_run P xs) \<longrightarrow> stop (monitor_run P (xs @ ys))"
    by (simp add: stop_monitor_run_append)
  show "map (\<lambda>k. stop (monitor_run 2 (take k [0.9, 0.8, 0.85, 0.86]))) [0..<5]
       = [False, False, False, False, True]"
    by (simp add: monitor_run_def EarlyStopMonitor_def monitor_call_def Let_def upt_conv_Cons)
qed

theorem early_stop_monitor_witness:
  "stop (monitor_run 2 [0.9, 0.8, 0.85, 0.86]) \<and>
   2 \<le> int (fail_streak (take 4 [0.9, 0.8, 0.85, 0.86])) \<and>
   stop (monitor_run 2 ([0.9, 0.8, 0.85, 0.86] @ [0.1]))"
proof -
  have s: "2 \<le> int (fail_streak (take 4 [0.9, 0.8, 0.85, 0.86]))"
    by (simp add: fail_streak_def improves_def upt_conv_Cons)
  then have "\<exists>k\<in>{1..length [0.9, 0.8, 0.85, 0.86 :: real]}.
      2 \<le> int (fail_streak (take k [0.9, 0.8, 0.85, 0.86]))"
    by (intro bexI [of _ 4]) simp_all
  with early_stop_monitor [of 2 "[0.9, 0.8, 0.85, 0.86]" "[0.1]"] s
  show ?thesis by blast
qed

section \<open>Properties of the training driver\<close>

text \<open>
  What the loop of \<open>main\<close> appends to the trace, entered with the stop flag clear: the
  monitor has seen exactly the losses of the \<open>Monitored\<close> events; a loop left by an
  exception has saved nothing; a loop left by \<open>break\<close> has saved once, as its last
  effect, right after the first loss that set the flag; a loop that ran out of epochs has
  saved nothing and has fed the monitor once per epoch.
\<close>

lemma epoch_loop_trace:
  assumes "epoch_loop F train_loader val_loader epochs w mon = ((w', mon'), r)"
    and "\<not> stop mon"
  shows "\<exists>es. trace w' = trace w @ es \<and>
           mon' = foldl monitor_call mon (monitored es) \<and>
           (case r of
              Inl e \<Rightarrow> checkpoints es = []
            | Inr _ \<Rightarrow>
                if stop mon'
                then checkpoints es = [params w'] \<and> last es = SaveCheckpoint (params w') \<and>
                     monitored es \<noteq> [] \<and> length (monitored es) \<le> length epochs \<and>
                     \<not> stop (foldl monitor_call mon (butlast (monitored es)))
                else checkpoints es = [] \<and> length (monitored es) = length epochs)"
  using assms
proof (induction epochs arbitrary: w mon)
  case Nil
  then show ?case by auto
next
  case (Cons epoch epochs)
  obtain w1 r1 where t: "run_epoch F (train_loader (Suc epoch)) (Some ()) (Some ()) (w\<lparr>training := True\<rparr>) = (w1, r1)"
    by (cases "run_epoch F (train_loader (Suc epoch)) (Some ()) (Some ()) (w\<lparr>training := True\<rparr>)")
  from run_epoch_trace [OF t] obtain es1 where
    es1: "trace w1 = trace w @ es1" "monitored es1 = []" "checkpoints es1 = []"
    by auto
  show ?case
  proof (cases r1)
    case (Inl e)
    with t Cons.prems(1) have "w' = w1" "mon' = mon" "r = Inl e"
      by simp_all
    with es1 show ?thesis by auto
  next
    case (Inr train_loss)
    obtain w2 r2 where v: "run_epoch F (val_loader epoch) None None (w1\<lparr>training := False\<rparr>) = (w2, r2)"
      by (cases "run_epoch F (val_loader epoch) None None (w1\<lparr>training := False\<rparr>)")
    from run_epoch_trace [OF v] obtain es2 where
      es2: "trace w2 = trace w1 @ es2" "monitored es2 = []" "checkpoints es2 = []"
      by auto
    show ?thesis
    proof (cases r2)
      case (Inl e)
      with t v Inr Cons.prems(1) have "w' = w2" "mon' = mon" "r = Inl e"
        by simp_all
      moreover have "trace w2 = trace w @ (es1 @ es2)"
        using es1 es2 by simp
      ultimately show ?thesis
        using es1 es2 by (auto simp: monitored_append checkpoints_append)
    next
      case (Inr val_loss)
      define w3 where "w3 = w2\<lparr>trace := trace w2 @
                               [Logged (int epoch) train_loss val_loss, Monitored val_loss]\<rparr>"
      define mon1 where "mon1 = monitor_call mon val_loss"
      let ?pre = "es1 @ es2 @ [Logged (int epoch) train_loss val_loss, Monitored val_loss]"
      have tr3: "trace w3 = trace w @ ?pre"
        using es1 es2 by (simp add: w3_def)
      have mpre: "monitored ?pre = [val_loss]" "checkpoints ?pre = []"
        using es1 es2 by (simp_all add: monitored_append checkpoints_append)
      show ?thesis
      proof (cases "stop mon1")
        case True
        with t v Inr \<open>r1 = Inr train_loss\<close> Cons.prems(1)
        have res: "w' = w3\<lparr>trace := trace w3 @ [SaveCheckpoint (params w3)]\<rparr>" "mon' = mon1" "r = Inr ()"
          by (simp_all add: Let_def w3_def mon1_def)
        let ?es = "?pre @ [SaveCheckpoint (params w3)]"
        have "trace w' = trace w @ ?es"
          using res(1) tr3 by simp
        moreover have "monitored ?es = [val_loss]" "checkpoints ?es = [params w']"
          using mpre res(1) by (simp_all add: monitored_append checkpoints_append del: append_assoc)
        moreover have "last ?es = SaveCheckpoint (params w')"
          using res(1) by simp
        ultimately show ?thesis
          using res(2,3) True Cons.prems(2)
          apply (intro exI [of _ ?es])
          apply (simp add: mon1_def del: append_assoc)
          done
      next
        case False
        with t v Inr \<open>r1 = Inr train_loss\<close> Cons.prems(1)
        have "epoch_loop F train_loader val_loader epochs w3 mon1 = ((w', mon'), r)"
          by (simp add: Let_def w3_def mon1_def)
        from Cons.IH [OF this False] obtain es where
          es: "trace w' = trace w3 @ es" "mon' = foldl monitor_call mon1 (monitored es)"
            "(case r of
              Inl e \<Rightarrow> checkpoints es = []
            | Inr _ \<Rightarrow>
                if stop mon'
                then checkpoints es = [params w'] \<and> last es = SaveCheckpoint (params w') \<and>
                     monitored es \<noteq> [] \<and> length (monitored es) \<le> length epochs \<and>
                     \<not> stop (foldl monitor_call mon1 (butlast (monitored es)))
                else checkpoints es = [] \<and> length (monitored es) = length epochs)"
          by blast
        let ?es = "?pre @ es"
        have a: "trace w' = trace w @ ?es"
          using es(1) tr3 by simp
        have m: "monitored ?es = val_loss # monitored es" and c: "checkpoints ?es = checkpoints es"
          using mpre by (simp_all add: monitored_append checkpoints_append del: append_assoc)
        have b: "mon' = foldl monitor_call mon (monitored ?es)"
          using es(2) by (simp only: m) (simp add: mon1_def)
        have l: "es \<noteq> [] \<Longrightarrow> last ?es = last es"
          by simp
        have d: "(case r of
              Inl e \<Rightarrow> checkpoints ?es = []
            | Inr _ \<Rightarrow>
                if stop mon'
                then checkpoints ?es = [params w'] \<and> last ?es = SaveCheckpoint (params w') \<and>
                     monitored ?es \<noteq> [] \<and> length (monitored ?es) \<le> length (epoch # epochs) \<and>
                     \<not> stop (foldl monitor_call mon (butlast (monitored ?es)))
                else checkpoints ?es = [] \<and> length (monitored ?es) = length (epoch # epochs))"
        proof (cases r)
          case (Inl e)
          with es(3) show ?thesis by (simp only: c) simp
        next
          case (Inr u)
          show ?thesis
          proof (cases "stop mon'")
            case True
            with es(3) Inr have h: "checkpoints es = [params w']" "last es = SaveCheckpoint (params w')"
              "monitored es \<noteq> []" "length (monitored es) \<le> length epochs"
              "\<not> stop (foldl monitor_call mon1 (butlast (monitored es)))"
              by simp_all
            from h(3) have "es \<noteq> []" by auto
            with l h(2) have "last ?es = SaveCheckpoint (params w')" by simp
            moreover have "\<not> stop (foldl monitor_call mon (butlast (monitored ?es)))"
              using h(3,5) by (simp only: m) (simp add: mon1_def)
            ultimately show ?thesis
              using Inr True h(1,4) by (simp only: c m) simp
          next
            case False
            with es(3) Inr show ?thesis by (simp only: c m) simp
          qed
        qed
        from a b d show ?thesis by blast
      qed
    qed
  qed
qed


text \<open>
  When every pass over both loaders yields a batch, no call of \<open>run_epoch\<close> raises and
  the loop ends normally.
\<close>

lemma epoch_loop_completes:
  assumes "\<forall>k. train_loader k \<noteq> []" "\<forall>k. val_loader k \<noteq> []"
  shows "snd (epoch_loop F train_loader val_loader epochs w mon) = Inr ()"
proof (induction epochs arbitrary: w mon)
  case Nil
  then show ?case by simp
next
  case (Cons epoch epochs)
  from assms(1) have "train_loader (Suc epoch) \<noteq> []" by blast
  from run_epoch_returns [OF this, of "Some ()" "Some ()" F "w\<lparr>training := True\<rparr>"]
  obtain w1 train_loss where
    t: "run_epoch F (train_loader (Suc epoch)) (Some ()) (Some ()) (w\<lparr>training := True\<rparr>)
          = (w1, Inr train_loss)"
    by auto
  from assms(2) have "val_loader epoch \<noteq> []" by blast
  from run_epoch_returns [OF this, of None None F "w1\<lparr>training := False\<rparr>"]
  obtain w2 val_loss where
    v: "run_epoch F (val_loader epoch) None None (w1\<lparr>training := False\<rparr>) = (w2, Inr val_loss)"
    by auto
  show ?case
    using t v Cons.IH by (simp add: Let_def)
qed

text \<open>
  C2. Every run of \<open>main\<close> that ends normally has called \<open>save_checkpoint\<close> exactly once,
  as its last effect and on the parameters it ends with: if the stop flag was set, right
  after the first validation loss that set it, within the configured epochs; otherwise
  after one validation loss for each of the \<open>num_epochs\<close> epochs. A run ends normally
  when every pass over the loaders yields a batch; a run that an exception aborts has
  saved nothing.
\<close>

theorem main_saves_exactly_once:
  assumes "main F num_epochs patience train_loader val_loader w = (w', r)"
  shows "(\<exists>es. trace w' = trace w @ es \<and>
           (case r of
              Inl e \<Rightarrow> checkpoints es = []
            | Inr _ \<Rightarrow>
                checkpoints es = [params w'] \<and> last es = SaveCheckpoint (params w') \<and>
                (if stop (monitor_run patience (monitored es))
                 then monitored es \<noteq> [] \<and> length (monitored es) \<le> nat num_epochs \<and>
                      \<not> stop (monitor_run patience (butlast (monitored es)))
                 else length (monitored es) = nat num_epochs)))
       \<and> ((\<forall>k. train_loader k \<noteq> []) \<and> (\<forall>k. val_loader k \<noteq> []) \<longrightarrow> r = Inr ())"
proof (cases "train_loader 0")
  case Nil
  with assms have "w' = w" "r = Inl StopIteration"
    by (simp_all add: main_def)
  with Nil show ?thesis by auto
next
  case (Cons b bs)
  obtain w1 mon1 r1 where
    l: "epoch_loop F train_loader val_loader [0..<nat num_epochs] w (EarlyStopMonitor patience)
          = ((w1, mon1), r1)"
    by (metis surj_pair)
  have ns: "\<not> stop (EarlyStopMonitor patience)"
    by (simp add: EarlyStopMonitor_def)
  from epoch_loop_trace [OF l ns] obtain es where
    es: "trace w1 = trace w @ es" "mon1 = monitor_run patience (monitored es)"
      "(case r1 of
              Inl e \<Rightarrow> checkpoints es = []
            | Inr _ \<Rightarrow>
                if stop mon1
                then checkpoints es = [params w1] \<and> last es = SaveCheckpoint (params w1) \<and>
                     monitored es \<noteq> [] \<and> length (monitored es) \<le> length [0..<nat num_epochs] \<and>
                     \<not> stop (foldl monitor_call (EarlyStopMonitor patience) (butlast (monitored es)))
                else checkpoints es = [] \<and> length (monitored es) = length [0..<nat num_epochs])"
    unfolding monitor_run_def by blast
  have completes: "(\<forall>k. train_loader k \<noteq> []) \<and> (\<forall>k. val_loader k \<noteq> []) \<longrightarrow> r = Inr ()"
  proof
    assume a: "(\<forall>k. train_loader k \<noteq> []) \<and> (\<forall>k. val_loader k \<noteq> [])"
    then have "snd (epoch_loop F train_loader val_loader [0..<nat num_epochs] w
                 (EarlyStopMonitor patience)) = Inr ()"
      by (intro epoch_loop_completes) simp_all
    with l have "r1 = Inr ()" by simp
    with assms Cons l show "r = Inr ()"
      by (simp add: main_def split: if_splits)
  qed
  have trace_part: "\<exists>es. trace w' = trace w @ es \<and>
           (case r of
              Inl e \<Rightarrow> checkpoints es = []
            | Inr _ \<Rightarrow>
                checkpoints es = [params w'] \<and> last es = SaveCheckpoint (params w') \<and>
                (if stop (monitor_run patience (monitored es))
                 then monitored es \<noteq> [] \<and> length (monitored es) \<le> nat num_epochs \<and>
                      \<not> stop (monitor_run patience (butlast (monitored es)))
                 else length (monitored es) = nat num_epochs))"
  proof (cases r1)
    case (Inl e)
    with assms Cons l have "w' = w1" "r = Inl e"
      by (simp_all add: main_def)
    with es Inl show ?thesis by auto
  next
    case (Inr u)
    show ?thesis
    proof (cases "stop mon1")
      case True
      with assms Cons l Inr have "w' = w1" "r = Inr ()"
        by (simp_all add: main_def)
      with es Inr True show ?thesis
        by (auto simp: monitor_run_def)
    next
      case False
      with assms Cons l Inr have
        res: "w' = w1\<lparr>trace := trace w1 @ [SaveCheckpoint (params w1)]\<rparr>" "r = Inr ()"
        by (simp_all add: main_def)
      let ?es = "es @ [SaveCheckpoint (params w1)]"
      from es(3) Inr False have h: "checkpoints es = []" "length (monitored es) = nat num_epochs"
        by simp_all
      have "trace w' = trace w @ ?es"
        using res(1) es(1) by simp
      moreover have "checkpoints ?es = [params w']" "monitored ?es = monitored es"
        using h(1) res(1) by (simp_all add: checkpoints_append monitored_append)
      moreover have "last ?es = SaveCheckpoint (params w')"
        using res(1) by simp
      ultimately show ?thesis
        using res(2) False es(2) h(2)
        apply (intro exI [of _ ?es])
        apply (simp del: append_assoc)
        done
    qed
  qed
  from trace_part completes show ?thesis by blast
qed


theorem main_saves_exactly_once_witness:
  "snd (main sample_framework 3 1 (\<lambda>k. [1, 2]) (\<lambda>k. [1]) sample_world) = Inr () \<and>
   checkpoints (trace (fst (main sample_framework 3 1 (\<lambda>k. [1, 2]) (\<lambda>k. [1]) sample_world)))
     = [4] \<and>
   monitored (trace (fst (main sample_framework 3 1 (\<lambda>k. [1, 2]) (\<lambda>k. [1]) sample_world)))
     = [3, 5]"
  using main_saves_exactly_once [of sample_framework 3 1 "\<lambda>k. [1, 2]" "\<lambda>k. [1]" sample_world
      "fst (main sample_framework 3 1 (\<lambda>k. [1, 2]) (\<lambda>k. [1]) sample_world)"
      "snd (main sample_framework 3 1 (\<lambda>k. [1, 2]) (\<lambda>k. [1]) sample_world)"]
  by (simp add: main_def run_epoch_def Let_def sample_framework_def sample_world_def
        EarlyStopMonitor_def monitor_call_def upt_conv_Cons)

section \<open>Properties of the learning-rate schedule\<close>

lemma lr_lambda_no_warmup:
  "lr_lambda 0 T (int k) =
     (if 0 < T \<and> int k \<le> T then 1 - real k / real_of_int T else 0)"
proof (cases "0 < T \<and> int k \<le> T")
  case True
  then have "real_of_int (T - int k) / real_of_int T = 1 - real k / real_of_int T"
    by (simp add: diff_divide_distrib)
  moreover have "0 \<le> real_of_int (T - int k) / real_of_int T"
    using True by simp
  ultimately show ?thesis
    using True by (simp add: lr_lambda_def max_def)
next
  case False
  then have "real_of_int (T - int k) / real_of_int (max 1 T) \<le> 0"
    by (auto simp: max_def divide_le_0_iff not_less not_le)
  then show ?thesis
    using False by (simp add: lr_lambda_def max_def)
qed

lemma lr_lambda_antimono:
  assumes "k \<le> k'"
  shows "lr_lambda 0 T (int k') \<le> lr_lambda 0 T (int k)"
proof (cases "0 < T \<and> int k' \<le> T")
  case True
  then have "real k / real_of_int T \<le> real k' / real_of_int T"
    using assms by (simp add: divide_right_mono)
  then show ?thesis
    using True assms by (simp add: lr_lambda_no_warmup)
next
  case False
  then have "lr_lambda 0 T (int k') = 0"
    by (simp only: lr_lambda_no_warmup if_False)
  moreover have "0 \<le> lr_lambda 0 T (int k)"
    by (simp add: lr_lambda_def)
  ultimately show ?thesis by simp
qed

text \<open>
  C7, as the driver configures it. The schedule has no warmup phase
  (\<open>num_warmup_steps=0\<close>): over \<open>num_epochs * len(train_loader)\<close> steps the learning rate
  starts at its peak \<open>2e-5\<close> and decays linearly to zero, where it stays; it never
  increases.
\<close>

theorem learning_rate_decays:
  "learning_rate num_epochs n k =
     (if 0 < num_epochs * int n \<and> int k \<le> num_epochs * int n
      then (2 / 100000) * (1 - real k / real_of_int (num_epochs * int n)) else 0)
   \<and> (k \<le> k' \<longrightarrow> learning_rate num_epochs n k' \<le> learning_rate num_epochs n k)
   \<and> (0 < num_epochs * int n \<longrightarrow> learning_rate num_epochs n 0 = 2 / 100000)"
proof (intro conjI impI)
  show "learning_rate num_epochs n k =
     (if 0 < num_epochs * int n \<and> int k \<le> num_epochs * int n
      then (2 / 100000) * (1 - real k / real_of_int (num_epochs * int n)) else 0)"
    unfolding learning_rate_def lr_lambda_no_warmup by simp
next
  assume "k \<le> k'"
  from lr_lambda_antimono [OF this, of "num_epochs * int n"]
  show "learning_rate num_epochs n k' \<le> learning_rate num_epochs n k"
    unfolding learning_rate_def by simp
next
  assume "0 < num_epochs * int n"
  then show "learning_rate num_epochs n 0 = 2 / 100000"
    unfolding learning_rate_def using lr_lambda_no_warmup [of "num_epochs * int n" 0] by simp
qed

theorem learning_rate_decays_witness:
  "learning_rate 15 10 0 = 2 / 100000 \<and> learning_rate 15 10 75 = 1 / 100000 \<and>
   learning_rate 15 10 150 = 0 \<and> learning_rate 15 10 75 \<le> learning_rate 15 10 0"
  using learning_rate_decays [of 15 10 0 75] learning_rate_decays [of 15 10 75 75]
    learning_rate_decays [of 15 10 150 150]
  by simp

text \<open>
  C7, as the claim states it, fails: with 15 epochs of 10 batches the learning rate before
  the first step is the peak, not zero, and the first step already lowers it.
\<close>

theorem learning_rate_warmup_counterexample:
  "learning_rate 15 10 0 = 2 / 100000 \<and> learning_rate 15 10 0 \<noteq> 0 \<and>
   learning_rate 15 10 1 < learning_rate 15 10 0"
  by (simp add: learning_rate_def lr_lambda_def)

section \<open>Properties of the command line\<close>

lemmas parser_defs = parser_def set_defaults_def add_argument_def add_store_true_def
  add_store_false_def

lemma parser_actions:
  assumes "a \<in> set parser"
  shows "(action a = StoreTrue \<longrightarrow> option_string a = ''--freeze_bert'' \<and> dest a = ''freeze_bert'')
       \<and> (action a = StoreFalse \<longrightarrow> option_string a = ''--unfreeze_bert'' \<and> dest a = ''freeze_bert'')
       \<and> (action a = Store \<longrightarrow> option_string a \<noteq> ''--freeze_bert'' \<and>
            option_string a \<noteq> ''--unfreeze_bert'' \<and> dest a \<noteq> ''freeze_bert'')"
  using assms by (auto simp: parser_defs)

lemma find_parser:
  assumes "find (\<lambda>a. option_string a = tok) parser = Some a"
  shows "a \<in> set parser \<and> option_string a = tok"
  using assms by (auto simp: find_Some_iff in_set_conv_nth)

lemma switches_no_dash: "\<not> starts_with_dash v \<Longrightarrow> switches (v # rest) = switches rest"
  by (auto simp: switches_def starts_with_dash_def)

lemma parse_tokens_freeze_bert:
  "parse_tokens C args toks ns = Parsed ns' \<Longrightarrow> args = parser \<Longrightarrow>
     ns' ''freeze_bert'' =
       (if switches toks = [] then ns ''freeze_bert''
        else Some (VBool (last (switches toks) = ''--freeze_bert'')))"
proof (induction C args toks ns rule: parse_tokens.induct)
  case (1 C args ns)
  then show ?case by (simp add: switches_def)
next
  case (2 C args tok rest ns)
  from "2.prems" obtain a where f: "find (\<lambda>a. option_string a = tok) args = Some a"
    by (auto split: option.splits if_splits)
  with find_parser [of tok a] "2.prems"(2) have a: "a \<in> set parser" "option_string a = tok"
    by simp_all
  note pa = parser_actions [OF a(1)]
  show ?case
  proof (cases "action a")
    case Store
    with "2.prems" f obtain v rest' x where
      r: "rest = v # rest'" "\<not> starts_with_dash v" "convert C (arg_type a) v = Some x"
        "in_choices a v" "parse_tokens C args rest' (ns(dest a \<mapsto> x)) = Parsed ns'"
      by (auto split: list.splits if_splits option.splits)
    from "2.IH"(1) [OF f Store r(1) r(2) r(3) r(4) r(5) "2.prems"(2)]
    have "ns' ''freeze_bert'' =
       (if switches rest' = [] then (ns(dest a \<mapsto> x)) ''freeze_bert''
        else Some (VBool (last (switches rest') = ''--freeze_bert'')))" .
    moreover have "switches (tok # rest) = switches rest'"
      using pa Store a(2) r(1,2) by (auto simp: switches_def starts_with_dash_def)
    moreover have "(ns(dest a \<mapsto> x)) ''freeze_bert'' = ns ''freeze_bert''"
      using pa Store by auto
    ultimately show ?thesis by simp
  next
    case StoreTrue
    with "2.prems" f have
      r: "parse_tokens C args rest (ns(dest a \<mapsto> VBool True)) = Parsed ns'"
      by simp
    from "2.IH"(2) [OF f StoreTrue r "2.prems"(2)]
    have "ns' ''freeze_bert'' =
       (if switches rest = [] then (ns(dest a \<mapsto> VBool True)) ''freeze_bert''
        else Some (VBool (last (switches rest) = ''--freeze_bert'')))" .
    moreover have "switches (tok # rest) = ''--freeze_bert'' # switches rest" "dest a = ''freeze_bert''"
      using pa StoreTrue a(2) by (auto simp: switches_def)
    ultimately show ?thesis by simp
  next
    case StoreFalse
    with "2.prems" f have
      r: "parse_tokens C args rest (ns(dest a \<mapsto> VBool False)) = Parsed ns'"
      by simp
    from "2.IH"(3) [OF f StoreFalse r "2.prems"(2)]
    have "ns' ''freeze_bert'' =
       (if switches rest = [] then (ns(dest a \<mapsto> VBool False)) ''freeze_bert''
        else Some (VBool (last (switches rest) = ''--freeze_bert'')))" .
    moreover have "switches (tok # rest) = ''--unfreeze_bert'' # switches rest" "dest a = ''freeze_bert''"
      using pa StoreFalse a(2) by (auto simp: switches_def)
    ultimately show ?thesis by simp
  qed
qed

lemma parse_tokens_switches_accepted:
  "set toks \<subseteq> {''--freeze_bert'', ''--unfreeze_bert''} \<Longrightarrow>
     \<exists>ns'. parse_tokens C parser toks ns = Parsed ns'"
proof (induction toks arbitrary: ns)
  case Nil
  then show ?case by simp
next
  case (Cons tok rest)
  then have "tok = ''--freeze_bert'' \<or> tok = ''--unfreeze_bert''" by simp
  then show ?case
  proof
    assume t: "tok = ''--freeze_bert''"
    have "find (\<lambda>a. option_string a = ''--freeze_bert'') parser =
            Some ((add_store_true ''--freeze_bert'' ''freeze_bert'')\<lparr>arg_default := VBool True\<rparr>)"
      by (simp add: parser_defs)
    then show ?thesis
      using Cons t by (simp add: add_store_true_def)
  next
    assume t: "tok = ''--unfreeze_bert''"
    have "find (\<lambda>a. option_string a = ''--unfreeze_bert'') parser =
            Some ((add_store_false ''--unfreeze_bert'' ''freeze_bert'')\<lparr>arg_default := VBool True\<rparr>)"
      by (simp add: parser_defs)
    then show ?thesis
      using Cons t by (simp add: add_store_false_def)
  qed
qed

lemma defaults_freeze_bert: "defaults parser ''freeze_bert'' = Some (VBool True)"
  by (simp add: parser_defs defaults_def)

text \<open>
  C8. The argument \<open>--model_name\<close> is declared with the default \<open>roberta\<close> and with three
  choices, \<open>roberta-base\<close>, \<open>distilbert-base-uncased\<close> and \<open>allenai/longformer-base-4096\<close>;
  the default is none of them, and an empty command line is parsed with \<open>model_name\<close>
  set to it.
\<close>

theorem model_name_default_not_a_choice:
  "map arg_default (filter (\<lambda>a. option_string a = ''--model_name'') parser)
     = [VStr ''roberta'']
   \<and> map choices (filter (\<lambda>a. option_string a = ''--model_name'') parser)
     = [Some [''roberta-base'', ''distilbert-base-uncased'', ''allenai/longformer-base-4096'']]
   \<and> ''roberta'' \<notin> set [''roberta-base'', ''distilbert-base-uncased'',
                         ''allenai/longformer-base-4096'']
   \<and> attribute (parse_args C []) ''model_name'' = Some (VStr ''roberta'')"
  by (simp add: parser_defs parse_args_def defaults_def)

theorem model_name_default_not_a_choice_witness:
  "attribute (parse_args no_numbers []) ''model_name'' = Some (VStr ''roberta'') \<and>
   attribute (parse_args no_numbers [''--model_name'', ''roberta'']) ''model_name'' = None"
  using model_name_default_not_a_choice [of no_numbers]
  by (simp add: parser_defs parse_args_def defaults_def in_choices_def starts_with_dash_def)

text \<open>
  C9, as the code has it. Both switches write the attribute \<open>freeze_bert\<close>: whenever a
  command line is parsed, \<open>freeze_bert\<close> is true if it holds neither switch and otherwise
  is what the last switch on it stores (true for \<open>--freeze_bert\<close>, false for
  \<open>--unfreeze_bert\<close>); and every command line made of these switches only, in any number
  and order, is parsed.
\<close>

theorem freeze_bert_switches:
  "(parse_args C argv = Parsed ns \<longrightarrow>
      ns ''freeze_bert'' =
        Some (VBool (switches argv = [] \<or> last (switches argv) = ''--freeze_bert'')))
   \<and> (set argv \<subseteq> {''--freeze_bert'', ''--unfreeze_bert''} \<longrightarrow>
        (\<exists>ns'. parse_args C argv = Parsed ns'))"
proof (intro conjI impI)
  assume "parse_args C argv = Parsed ns"
  then have "parse_tokens C parser argv (defaults parser) = Parsed ns"
    by (simp add: parse_args_def)
  from parse_tokens_freeze_bert [OF this refl]
  show "ns ''freeze_bert'' =
        Some (VBool (switches argv = [] \<or> last (switches argv) = ''--freeze_bert''))"
    by (simp add: defaults_freeze_bert)
next
  assume "set argv \<subseteq> {''--freeze_bert'', ''--unfreeze_bert''}"
  from parse_tokens_switches_accepted [OF this]
  show "\<exists>ns'. parse_args C argv = Parsed ns'"
    by (simp add: parse_args_def)
qed


theorem freeze_bert_switches_witness:
  "attribute (parse_args no_numbers []) ''freeze_bert'' = Some (VBool True) \<and>
   attribute (parse_args no_numbers [''--unfreeze_bert'', ''--freeze_bert'']) ''freeze_bert''
     = Some (VBool True)"
  using freeze_bert_switches [of no_numbers "[]"]
    freeze_bert_switches [of no_numbers "[''--unfreeze_bert'', ''--freeze_bert'']"]
  by (simp add: parser_defs parse_args_def defaults_def)

text \<open>
  C9, as the claim states it, fails: the command line that supplies both switches is not
  rejected; it is parsed, and the later switch wins.
\<close>

theorem freeze_bert_both_counterexample:
  "parse_args no_numbers [''--freeze_bert'', ''--unfreeze_bert''] \<noteq> SystemExit \<and>
   attribute (parse_args no_numbers [''--freeze_bert'', ''--unfreeze_bert'']) ''freeze_bert''
     = Some (VBool False)"
  by (simp add: parser_defs parse_args_def defaults_def)

end
